theory Spec2Isabelle
  imports Complex_Main "HOL-Library.Word"
begin

section \<open>Strings: sequences of UTF-16 code units\<close>

text \<open>
  A JavaScript string is a sequence of 16-bit code units; \<open>expr.length\<close> counts them and
  \<open>expr[i]\<close> reads one.  The regular expressions of the source carry no flag, so they
  test single code units.
\<close>

type_synonym js_char = "16 word"
type_synonym js_string = "js_char list"

definition js :: "string \<Rightarrow> js_string" where
  \<comment> \<open>a string literal of the source, one code unit per (Latin-1) character\<close>
  "js s = map of_char s"

definition isWhiteSpace :: "js_char \<Rightarrow> bool" where
  \<comment> \<open>\<open>/\s/\<close>, and the characters \<open>String.prototype.trim\<close> strips: WhiteSpace and LineTerminator\<close>
  "isWhiteSpace c \<longleftrightarrow>
     c = 0x09 \<or> c = 0x0A \<or> c = 0x0B \<or> c = 0x0C \<or> c = 0x0D \<or> c = 0x20 \<or> c = 0xA0 \<or>
     c = 0x1680 \<or> (0x2000 \<le> c \<and> c \<le> 0x200A) \<or> c = 0x2028 \<or> c = 0x2029 \<or>
     c = 0x202F \<or> c = 0x205F \<or> c = 0x3000 \<or> c = 0xFEFF"

definition isDigit :: "js_char \<Rightarrow> bool" where
  \<comment> \<open>\<open>/\d/\<close>: the ASCII digits only\<close>
  "isDigit c \<longleftrightarrow> 0x30 \<le> c \<and> c \<le> 0x39"

definition chDot :: js_char where "chDot = 0x2E"
definition chPlus :: js_char where "chPlus = 0x2B"
definition chMinus :: js_char where "chMinus = 0x2D"
definition chStar :: js_char where "chStar = 0x2A"
definition chSlash :: js_char where "chSlash = 0x2F"
definition chPercent :: js_char where "chPercent = 0x25"
definition chLParen :: js_char where "chLParen = 0x28"
definition chRParen :: js_char where "chRParen = 0x29"

definition isNumChar :: "js_char \<Rightarrow> bool" where
  \<comment> \<open>\<open>/[\d.]/\<close>\<close>
  "isNumChar c \<longleftrightarrow> isDigit c \<or> c = chDot"

definition isOperator :: "js_char \<Rightarrow> bool" where
  \<comment> \<open>\<open>/[+\-*/%]/\<close>\<close>
  "isOperator c \<longleftrightarrow> c = chPlus \<or> c = chMinus \<or> c = chStar \<or> c = chSlash \<or> c = chPercent"

definition isAllowed :: "js_char \<Rightarrow> bool" where
  \<comment> \<open>the class \<open>[\d.\s+\-*/%()]\<close> of the security check\<close>
  "isAllowed c \<longleftrightarrow>
     isDigit c \<or> c = chDot \<or> isWhiteSpace c \<or> c = chPlus \<or> c = chMinus \<or> c = chStar \<or>
     c = chSlash \<or> c = chPercent \<or> c = chLParen \<or> c = chRParen"

definition trim :: "js_string \<Rightarrow> js_string" where
  \<comment> \<open>\<open>expr.trim()\<close>\<close>
  "trim s = rev (dropWhile isWhiteSpace (rev (dropWhile isWhiteSpace s)))"

section \<open>Numbers: IEEE 754 binary64, round to nearest, ties to even\<close>

text \<open>
  A Number is a signed finite magnitude (the sign is kept on zero), a signed infinity or
  NaN.  The flag is \<open>True\<close> for a negative sign.  Every operation computes the exact
  rational result and rounds it to the nearest binary64 value.
\<close>

datatype js_number = Finite bool rat | Infinity bool | NaN

function bitLength :: "int \<Rightarrow> nat" where
  "bitLength n = (if n \<le> 0 then 0 else Suc (bitLength (n div 2)))"
  by pat_completeness auto
termination bitLength
  by (relation "measure nat") auto

declare bitLength.simps [simp del]

definition pow2 :: "int \<Rightarrow> rat" where
  "pow2 e = (if 0 \<le> e then 2 ^ nat e else 1 / 2 ^ nat (- e))"

definition floorLog2 :: "rat \<Rightarrow> int" where
  \<comment> \<open>for \<open>0 < q\<close>: the \<open>e\<close> with \<open>2 ^ e \<le> q < 2 ^ (e + 1)\<close>\<close>
  "floorLog2 q =
     (let a = fst (quotient_of q); b = snd (quotient_of q);
          d = int (bitLength a) - int (bitLength b)
      in if pow2 d \<le> q then d else d - 1)"

definition roundHalfEven :: "rat \<Rightarrow> int" where
  "roundHalfEven q =
     (let f = \<lfloor>q\<rfloor>; r = q - of_int f
      in if r < 1 / 2 then f else if 1 / 2 < r then f + 1 else if even f then f else f + 1)"

definition roundToDouble :: "bool \<Rightarrow> rat \<Rightarrow> js_number" where
  \<comment> \<open>sign and exact magnitude \<open>0 \<le> q\<close>: \<open>n\<close> is \<open>q\<close> in units of the last place, a
      significand of at most 53 bits at an exponent from -1022 (subnormals included) on;
      a result of \<open>2 ^ 1024\<close> or more overflows to infinity\<close>
  "roundToDouble s q =
     (if q = 0 then Finite s 0
      else let e = max (floorLog2 q) (- 1022);
               ulp = pow2 (e - 52);
               n = roundHalfEven (q / ulp)
           in if 1024 \<le> e \<or> (e = 1023 \<and> 2 ^ 53 \<le> n) then Infinity s
              else Finite s (of_int n * ulp))"

definition signedValue :: "bool \<Rightarrow> rat \<Rightarrow> rat" where
  "signedValue s m = (if s then - m else m)"

fun js_neg :: "js_number \<Rightarrow> js_number" where
  "js_neg (Finite s m) = Finite (\<not> s) m"
| "js_neg (Infinity s) = Infinity (\<not> s)"
| "js_neg NaN = NaN"

fun js_add :: "js_number \<Rightarrow> js_number \<Rightarrow> js_number" where
  "js_add NaN y = NaN"
| "js_add x NaN = NaN"
| "js_add (Infinity s) (Infinity t) = (if s = t then Infinity s else NaN)"
| "js_add (Infinity s) (Finite t n) = Infinity s"
| "js_add (Finite s m) (Infinity t) = Infinity t"
| "js_add (Finite s m) (Finite t n) =
     (let r = signedValue s m + signedValue t n
      in if r = 0 then Finite (s \<and> t) 0 else roundToDouble (r < 0) \<bar>r\<bar>)"

definition js_sub :: "js_number \<Rightarrow> js_number \<Rightarrow> js_number" where
  "js_sub x y = js_add x (js_neg y)"

fun js_mul :: "js_number \<Rightarrow> js_number \<Rightarrow> js_number" where
  "js_mul NaN y = NaN"
| "js_mul x NaN = NaN"
| "js_mul (Infinity s) (Infinity t) = Infinity (s \<noteq> t)"
| "js_mul (Infinity s) (Finite t n) = (if n = 0 then NaN else Infinity (s \<noteq> t))"
| "js_mul (Finite s m) (Infinity t) = (if m = 0 then NaN else Infinity (s \<noteq> t))"
| "js_mul (Finite s m) (Finite t n) = roundToDouble (s \<noteq> t) (m * n)"

fun js_div :: "js_number \<Rightarrow> js_number \<Rightarrow> js_number" where
  "js_div NaN y = NaN"
| "js_div x NaN = NaN"
| "js_div (Infinity s) (Infinity t) = NaN"
| "js_div (Infinity s) (Finite t n) = Infinity (s \<noteq> t)"
| "js_div (Finite s m) (Infinity t) = Finite (s \<noteq> t) 0"
| "js_div (Finite s m) (Finite t n) =
     (if n = 0 then (if m = 0 then NaN else Infinity (s \<noteq> t))
      else roundToDouble (s \<noteq> t) (m / n))"

fun isFinite :: "js_number \<Rightarrow> bool" where
  \<comment> \<open>\<open>Number.isFinite\<close>\<close>
  "isFinite (Finite s m) = True"
| "isFinite (Infinity s) = False"
| "isFinite NaN = False"

definition num :: "int \<Rightarrow> js_number" where
  \<comment> \<open>the Number written as a decimal integer literal in the source, such as \<open>100\<close>\<close>
  "num n = roundToDouble (n < 0) (of_int \<bar>n\<bar>)"

definition digitValue :: "js_char \<Rightarrow> int" where
  "digitValue c = uint c - 48"

definition decimalValue :: "js_string \<Rightarrow> int" where
  "decimalValue ds = foldl (\<lambda>a c. 10 * a + digitValue c) 0 ds"

definition parseFloat :: "js_string \<Rightarrow> js_number" where
  \<comment> \<open>\<open>parseFloat\<close> on a string of digits and dots, which is all that \<open>tokenize\<close> hands it:
      the longest prefix that is a decimal literal (digits, then optionally a dot and
      digits) is read and rounded to the nearest Number, as the engines do (ECMAScript
      lets an implementation round a literal of more than 20 significant digits less
      exactly); the rest, from a second dot on, is ignored; with no such prefix the result
      is NaN\<close>
  "parseFloat s =
     (let ip = takeWhile isDigit s;
          rest = dropWhile isDigit s;
          fp = (case rest of [] \<Rightarrow> [] | c # r \<Rightarrow> if c = chDot then takeWhile isDigit r else [])
      in if ip = [] \<and> fp = [] then NaN
         else roundToDouble False
                (of_int (decimalValue ip) + of_int (decimalValue fp) / 10 ^ length fp))"

section \<open>The tokenizer\<close>

datatype paren = LParen | RParen

datatype token = Number js_number | Op js_char | Paren paren

datatype error =
    InvalidCharacter
  | UnexpectedEndOfExpression
  | MissingClosingParenthesis
  | UnexpectedToken
  | UnexpectedTokenAfterExpression

lemma isDigit_isNumChar: "isDigit c \<Longrightarrow> isNumChar c"
  by (simp add: isNumChar_def)

text \<open>
  The loop of \<open>tokenize\<close>: the first argument is the part of \<open>expr\<close> from the cursor \<open>i\<close>
  on, the second the tokens pushed so far.  The inner loop of the number branch takes the
  longest prefix of digits and dots.
\<close>

function tokenizeLoop :: "js_string \<Rightarrow> token list \<Rightarrow> error + token list" where
  "tokenizeLoop [] tokens = Inr tokens"
| "tokenizeLoop (c # cs) tokens =
     (if isWhiteSpace c then tokenizeLoop cs tokens
      else if isDigit c then
        tokenizeLoop (dropWhile isNumChar (c # cs))
          (tokens @ [Number (parseFloat (takeWhile isNumChar (c # cs)))])
      else if isOperator c then tokenizeLoop cs (tokens @ [Op c])
      else if c = chLParen then tokenizeLoop cs (tokens @ [Paren LParen])
      else if c = chRParen then tokenizeLoop cs (tokens @ [Paren RParen])
      else Inl InvalidCharacter)"
  by pat_completeness auto
termination
proof (relation "measure (\<lambda>(s, tokens). length s)")
  fix c :: js_char and cs :: js_string and tokens :: "token list"
  assume "isDigit c"
  then have "dropWhile isNumChar (c # cs) = dropWhile isNumChar cs"
    by (simp add: isDigit_isNumChar)
  moreover have "length (dropWhile isNumChar cs) \<le> length cs"
    by (rule length_dropWhile_le)
  ultimately show "((dropWhile isNumChar (c # cs),
      tokens @ [Number (parseFloat (takeWhile isNumChar (c # cs)))]), c # cs, tokens)
    \<in> measure (\<lambda>(s, tokens). length s)"
    by simp
qed simp_all

declare tokenizeLoop.simps [simp del]

definition tokenize :: "js_string \<Rightarrow> error + token list" where
  "tokenize expr = tokenizeLoop expr []"

text \<open>
  A dot is stray when no digit and no dot stands directly before it: the flag of
  \<open>strayDotAfter\<close> says whether the character before the list is a digit or a dot.
\<close>

primrec strayDotAfter :: "bool \<Rightarrow> js_string \<Rightarrow> bool" where
  "strayDotAfter p [] = False"
| "strayDotAfter p (c # cs) = ((c = chDot \<and> \<not> p) \<or> strayDotAfter (isNumChar c) cs)"

definition strayDot :: "js_string \<Rightarrow> bool" where
  "strayDot s = strayDotAfter False s"

section \<open>The recursive descent parser\<close>

text \<open>
  The closures of \<open>parseExpression\<close> share the token array and the cursor \<open>pos\<close>.  Each
  function below takes the tokens from \<open>pos\<close> on and returns its value with the tokens that
  are left, or the error it throws: \<open>peek()\<close> is the head of that list (\<open>undefined\<close> when
  it is empty) and \<open>consume()\<close> drops it.  The two \<open>while\<close> loops are \<open>addSubLoop\<close> and
  \<open>mulDivLoop\<close>, with the running value \<open>left\<close>.
\<close>

function parseAddSub :: "token list \<Rightarrow> error + js_number \<times> token list"
  and addSubLoop :: "js_number \<Rightarrow> token list \<Rightarrow> error + js_number \<times> token list"
  and parseMulDiv :: "token list \<Rightarrow> error + js_number \<times> token list"
  and mulDivLoop :: "js_number \<Rightarrow> token list \<Rightarrow> error + js_number \<times> token list"
  and parsePercentage :: "token list \<Rightarrow> error + js_number \<times> token list"
  and parseUnary :: "token list \<Rightarrow> error + js_number \<times> token list"
  and parsePrimary :: "token list \<Rightarrow> error + js_number \<times> token list"
where
  "parseAddSub ts =
     (case parseMulDiv ts of
        Inl e \<Rightarrow> Inl e
      | Inr (left, ts') \<Rightarrow> addSubLoop left ts')"
| "addSubLoop left ts =
     (case ts of
        Op c # ts' \<Rightarrow>
          if c = chPlus \<or> c = chMinus then
            (case parseMulDiv ts' of
               Inl e \<Rightarrow> Inl e
             | Inr (right, ts'') \<Rightarrow>
                 addSubLoop (if c = chPlus then js_add left right else js_sub left right) ts'')
          else Inr (left, ts)
      | _ \<Rightarrow> Inr (left, ts))"
| "parseMulDiv ts =
     (case parsePercentage ts of
        Inl e \<Rightarrow> Inl e
      | Inr (left, ts') \<Rightarrow> mulDivLoop left ts')"
| "mulDivLoop left ts =
     (case ts of
        Op c # ts' \<Rightarrow>
          if c = chStar \<or> c = chSlash then
            (case parsePercentage ts' of
               Inl e \<Rightarrow> Inl e
             | Inr (right, ts'') \<Rightarrow>
                 mulDivLoop (if c = chStar then js_mul left right else js_div left right) ts'')
          else Inr (left, ts)
      | _ \<Rightarrow> Inr (left, ts))"
| "parsePercentage ts =
     (case parseUnary ts of
        Inl e \<Rightarrow> Inl e
      | Inr (left, ts') \<Rightarrow>
          (case ts' of
             Op c # ts'' \<Rightarrow>
               if c = chPercent then Inr (js_div left (num 100), ts'') else Inr (left, ts')
           | _ \<Rightarrow> Inr (left, ts')))"
| "parseUnary ts =
     (case ts of
        Op c # ts' \<Rightarrow>
          if c = chMinus \<or> c = chPlus then
            (case parseUnary ts' of
               Inl e \<Rightarrow> Inl e
             | Inr (v, ts'') \<Rightarrow> Inr (if c = chMinus then js_neg v else v, ts''))
          else parsePrimary ts
      | _ \<Rightarrow> parsePrimary ts)"
| "parsePrimary ts =
     (case ts of
        [] \<Rightarrow> Inl UnexpectedEndOfExpression
      | Number v # ts' \<Rightarrow> Inr (v, ts')
      | Paren LParen # ts' \<Rightarrow>
          (case parseAddSub ts' of
             Inl e \<Rightarrow> Inl e
           | Inr (result, ts'') \<Rightarrow>
               (case ts'' of
                  Paren RParen # ts''' \<Rightarrow> Inr (result, ts''')
                | _ \<Rightarrow> Inl MissingClosingParenthesis))
      | _ \<Rightarrow> Inl UnexpectedToken)"
  by pat_completeness auto

text \<open>
  No function returns more tokens than it was given.  Each loop consumes an operator
  before it parses the next operand, so the recursion is well-founded: every call
  returns.
\<close>

lemma parse_dom_length:
  "parseAddSub_addSubLoop_parseMulDiv_mulDivLoop_parsePercentage_parseUnary_parsePrimary_dom (Inl (Inl ts1))
     \<Longrightarrow> (\<forall>v r. parseAddSub ts1 = Inr (v, r) \<longrightarrow> length r \<le> length ts1)"
  "parseAddSub_addSubLoop_parseMulDiv_mulDivLoop_parsePercentage_parseUnary_parsePrimary_dom (Inl (Inr (Inl (l2, ts2))))
     \<Longrightarrow> (\<forall>v r. addSubLoop l2 ts2 = Inr (v, r) \<longrightarrow> length r \<le> length ts2)"
  "parseAddSub_addSubLoop_parseMulDiv_mulDivLoop_parsePercentage_parseUnary_parsePrimary_dom (Inl (Inr (Inr ts3)))
     \<Longrightarrow> (\<forall>v r. parseMulDiv ts3 = Inr (v, r) \<longrightarrow> length r \<le> length ts3)"
  "parseAddSub_addSubLoop_parseMulDiv_mulDivLoop_parsePercentage_parseUnary_parsePrimary_dom (Inr (Inl (Inl (l4, ts4))))
     \<Longrightarrow> (\<forall>v r. mulDivLoop l4 ts4 = Inr (v, r) \<longrightarrow> length r \<le> length ts4)"
  "parseAddSub_addSubLoop_parseMulDiv_mulDivLoop_parsePercentage_parseUnary_parsePrimary_dom (Inr (Inl (Inr ts5)))
     \<Longrightarrow> (\<forall>v r. parsePercentage ts5 = Inr (v, r) \<longrightarrow> length r \<le> length ts5)"
  "parseAddSub_addSubLoop_parseMulDiv_mulDivLoop_parsePercentage_parseUnary_parsePrimary_dom (Inr (Inr (Inl ts6)))
     \<Longrightarrow> (\<forall>v r. parseUnary ts6 = Inr (v, r) \<longrightarrow> length r \<le> length ts6)"
  "parseAddSub_addSubLoop_parseMulDiv_mulDivLoop_parsePercentage_parseUnary_parsePrimary_dom (Inr (Inr (Inr ts7)))
     \<Longrightarrow> (\<forall>v r. parsePrimary ts7 = Inr (v, r) \<longrightarrow> length r \<le> length ts7)"
proof (induct rule: parseAddSub_addSubLoop_parseMulDiv_mulDivLoop_parsePercentage_parseUnary_parsePrimary.pinduct)
  case (1 ts)
  then show ?case
    by (fastforce simp: parseAddSub.psimps split: sum.splits prod.splits)
next
  case (2 left ts)
  then show ?case
    by (fastforce simp: addSubLoop.psimps split: sum.splits prod.splits list.splits token.splits if_splits)
next
  case (3 ts)
  then show ?case
    by (fastforce simp: parseMulDiv.psimps split: sum.splits prod.splits)
next
  case (4 left ts)
  then show ?case
    by (fastforce simp: mulDivLoop.psimps split: sum.splits prod.splits list.splits token.splits if_splits)
next
  case (5 ts)
  then show ?case
    by (fastforce simp: parsePercentage.psimps split: sum.splits prod.splits list.splits token.splits if_splits)
next
  case (6 ts)
  then show ?case
    by (fastforce simp: parseUnary.psimps split: sum.splits prod.splits list.splits token.splits if_splits)
next
  case (7 ts)
  then show ?case
    by (fastforce simp: parsePrimary.psimps split: sum.splits prod.splits list.splits token.splits paren.splits if_splits)
qed

termination parseAddSub
  apply (relation "inv_image (less_than <*lex*> less_than)
     (\<lambda>x. case x of
        Inl (Inl ts) \<Rightarrow> (length ts, 6::nat)
      | Inl (Inr (Inl (l, ts))) \<Rightarrow> (length ts, 5)
      | Inl (Inr (Inr ts)) \<Rightarrow> (length ts, 4)
      | Inr (Inl (Inl (l, ts))) \<Rightarrow> (length ts, 3)
      | Inr (Inl (Inr ts)) \<Rightarrow> (length ts, 2)
      | Inr (Inr (Inl ts)) \<Rightarrow> (length ts, 1)
      | Inr (Inr (Inr ts)) \<Rightarrow> (length ts, 0))")
  apply (auto dest!: parse_dom_length [rule_format] simp: le_imp_less_Suc)
  done

declare parseAddSub.simps [simp del] addSubLoop.simps [simp del] parseMulDiv.simps [simp del]
  mulDivLoop.simps [simp del] parsePercentage.simps [simp del] parseUnary.simps [simp del]
  parsePrimary.simps [simp del]

definition parseExpression :: "js_string \<Rightarrow> error + js_number" where
  "parseExpression expr =
     (case tokenize expr of
        Inl e \<Rightarrow> Inl e
      | Inr tokens \<Rightarrow>
          (case parseAddSub tokens of
             Inl e \<Rightarrow> Inl e
           | Inr (result, rest) \<Rightarrow>
               if rest \<noteq> [] then Inl UnexpectedTokenAfterExpression else Inr result))"

section \<open>The guard\<close>

text \<open>
  \<open>evaluateWith parse\<close> is the body of \<open>evaluateMathExpressionSimple\<close> with the call of
  \<open>parseExpression\<close> abstracted to \<open>parse\<close>: the trim, the length and emptiness check, the
  test of the regular expression \<open>/^[\d.\s+\-*/%()]+$/\<close> (one or more characters, all of
  the class), and the \<open>try\<close> block, whose \<open>catch\<close> turns every thrown error into
  \<open>undefined\<close> (\<open>None\<close>).
\<close>

definition evaluateWith :: "(js_string \<Rightarrow> error + js_number) \<Rightarrow> js_string \<Rightarrow> js_number option" where
  "evaluateWith parse expr0 =
     (let expr = trim expr0
      in if length expr > 200 \<or> expr = [] then None
         else if \<not> (expr \<noteq> [] \<and> list_all isAllowed expr) then None
         else (case parse expr of
                 Inl e \<Rightarrow> None
               | Inr result \<Rightarrow> if isFinite result then Some result else None))"

definition evaluateMathExpressionSimple :: "js_string \<Rightarrow> js_number option" where
  "evaluateMathExpressionSimple = evaluateWith parseExpression"

section \<open>Notions used in the statements\<close>

text \<open>
  The depth of the parentheses after a list of tokens, or after a string, that starts at
  depth \<open>d\<close>: \<open>None\<close> when a closing parenthesis comes with none open.  A string has
  balanced parentheses when the scan from depth 0 ends at depth 0.
\<close>

fun scanParens :: "nat \<Rightarrow> token list \<Rightarrow> nat option" where
  "scanParens d [] = Some d"
| "scanParens d (Paren LParen # ts) = scanParens (Suc d) ts"
| "scanParens d (Paren RParen # ts) = (if d = 0 then None else scanParens (d - 1) ts)"
| "scanParens d (t # ts) = scanParens d ts"

fun scanParenChars :: "nat \<Rightarrow> js_string \<Rightarrow> nat option" where
  "scanParenChars d [] = Some d"
| "scanParenChars d (c # cs) =
     (if c = chLParen then scanParenChars (Suc d) cs
      else if c = chRParen then (if d = 0 then None else scanParenChars (d - 1) cs)
      else scanParenChars d cs)"

definition balancedParens :: "js_string \<Rightarrow> bool" where
  "balancedParens s \<longleftrightarrow> scanParenChars 0 s = Some 0"

text \<open>
  The value of a chain of unary signs in front of a value: each \<open>-\<close> negates, each
  \<open>+\<close> leaves the value as it is.
\<close>

definition applySigns :: "js_char list \<Rightarrow> js_number \<Rightarrow> js_number" where
  "applySigns signs v = foldr (\<lambda>c x. if c = chMinus then js_neg x else x) signs v"

section \<open>Auxiliary facts\<close>

subsection \<open>Character classes and trimming\<close>

lemmas char_defs = chDot_def chPlus_def chMinus_def chStar_def chSlash_def chPercent_def
  chLParen_def chRParen_def

lemma whitespace_not_digit: "isWhiteSpace c \<Longrightarrow> \<not> isDigit c"
  unfolding isWhiteSpace_def isDigit_def word_le_nat_alt by auto

lemma whitespace_not_special:
  "isWhiteSpace c \<Longrightarrow> c \<noteq> chDot \<and> c \<noteq> chPlus \<and> c \<noteq> chMinus \<and> c \<noteq> chStar \<and> c \<noteq> chSlash
     \<and> c \<noteq> chPercent \<and> c \<noteq> chLParen \<and> c \<noteq> chRParen"
  unfolding isWhiteSpace_def char_defs word_le_nat_alt by auto

lemma digit_not_special:
  "isDigit c \<Longrightarrow> c \<noteq> chDot \<and> c \<noteq> chPlus \<and> c \<noteq> chMinus \<and> c \<noteq> chStar \<and> c \<noteq> chSlash
     \<and> c \<noteq> chPercent \<and> c \<noteq> chLParen \<and> c \<noteq> chRParen"
  unfolding isDigit_def char_defs word_le_nat_alt by auto

lemma whitespace_allowed: "isWhiteSpace c \<Longrightarrow> isAllowed c"
  by (simp add: isAllowed_def)

lemma numchar_allowed: "isNumChar c \<Longrightarrow> isAllowed c"
  by (auto simp: isAllowed_def isNumChar_def)

lemma isAllowed_cases:
  "isAllowed c \<longleftrightarrow> isWhiteSpace c \<or> isDigit c \<or> c = chDot \<or> isOperator c \<or> c = chLParen \<or> c = chRParen"
  by (auto simp: isAllowed_def isOperator_def)

lemma dropWhile_keeps: "x \<in> set xs \<Longrightarrow> \<not> P x \<Longrightarrow> x \<in> set (dropWhile P xs)"
  by (induction xs) auto

lemma trim_keeps: "c \<in> set s \<Longrightarrow> \<not> isWhiteSpace c \<Longrightarrow> c \<in> set (trim s)"
  by (simp add: trim_def dropWhile_keeps)

subsection \<open>The guard\<close>

lemma evaluate_cases:
  "evaluateMathExpressionSimple s =
     (if 200 < length (trim s) \<or> trim s = [] \<or> \<not> list_all isAllowed (trim s) then None
      else case parseExpression (trim s) of Inl e \<Rightarrow> None
           | Inr v \<Rightarrow> if isFinite v then Some v else None)"
  by (simp add: evaluateMathExpressionSimple_def evaluateWith_def Let_def)

subsection \<open>The tokenizer\<close>

lemma tokenizeLoop_Nil: "tokenizeLoop [] tokens = Inr tokens"
  by (simp add: tokenizeLoop.simps(1))

lemma tokenizeLoop_Cons:
  "tokenizeLoop (c # cs) tokens =
     (if isWhiteSpace c then tokenizeLoop cs tokens
      else if isDigit c then
        tokenizeLoop (dropWhile isNumChar cs)
          (tokens @ [Number (parseFloat (c # takeWhile isNumChar cs))])
      else if isOperator c then tokenizeLoop cs (tokens @ [Op c])
      else if c = chLParen then tokenizeLoop cs (tokens @ [Paren LParen])
      else if c = chRParen then tokenizeLoop cs (tokens @ [Paren RParen])
      else Inl InvalidCharacter)"
proof (cases "isDigit c")
  case True
  then have "dropWhile isNumChar (c # cs) = dropWhile isNumChar cs"
    and "takeWhile isNumChar (c # cs) = c # takeWhile isNumChar cs"
    by (simp_all add: isDigit_isNumChar)
  then show ?thesis
    by (simp only: tokenizeLoop.simps(2)[of c cs tokens])
next
  case False
  then show ?thesis
    by (simp only: tokenizeLoop.simps(2)[of c cs tokens] if_False)
qed

lemma tokenizeLoop_error: "tokenizeLoop s acc = Inl e \<Longrightarrow> e = InvalidCharacter"
  by (induction s acc rule: tokenizeLoop.induct) (auto simp: tokenizeLoop_Nil tokenizeLoop_Cons isDigit_isNumChar split: if_splits)

lemma list_all_dropWhile_numchar:
  "list_all isAllowed (dropWhile isNumChar cs) = list_all isAllowed cs"
  by (induction cs) (auto simp: numchar_allowed)

lemma strayDotAfter_run:
  "strayDotAfter False (dropWhile isNumChar cs) = strayDotAfter True cs"
  by (induction cs) (auto simp: isNumChar_def)

lemma tokenizeLoop_succeeds_iff:
  "(\<exists>ts. tokenizeLoop s acc = Inr ts) \<longleftrightarrow> list_all isAllowed s \<and> \<not> strayDotAfter False s"
proof (induction s acc rule: tokenizeLoop.induct)
  case (1 tokens)
  show ?case by (simp add: tokenizeLoop_Nil)
next
  case (2 c cs tokens)
  note tokenizeLoop_Cons [simp]
  show ?case
  proof (cases "isWhiteSpace c")
    case True
    with 2 show ?thesis
      using whitespace_not_digit[of c] whitespace_not_special[of c]
      by (simp add: whitespace_allowed isNumChar_def)
  next
    case ws: False
    show ?thesis
    proof (cases "isDigit c")
      case True
      with ws 2 show ?thesis
        using digit_not_special[of c]
        by (simp add: isDigit_isNumChar numchar_allowed list_all_dropWhile_numchar strayDotAfter_run)
    next
      case dg: False
      show ?thesis
      proof (cases "isOperator c \<or> c = chLParen \<or> c = chRParen")
        case True
        then have "c \<noteq> chDot" by (auto simp: isOperator_def char_defs)
        moreover from True have "isAllowed c" by (auto simp: isAllowed_cases)
        ultimately show ?thesis using ws dg True 2
          by (auto simp: isNumChar_def)
      next
        case False
        then show ?thesis using ws dg
          by (auto simp: isAllowed_cases)
      qed
    qed
  qed
qed

lemma tokenizeLoop_number_run:
  assumes "isDigit d" "list_all isNumChar run" "post = [] \<or> \<not> isNumChar (hd post)"
  shows "tokenizeLoop (d # run @ post) acc = tokenizeLoop post (acc @ [Number (parseFloat (d # run))])"
proof -
  have tw: "takeWhile isNumChar (run @ post) = run"
    using assms(2,3) by (cases post) (auto simp: list_all_iff takeWhile_append2 intro: takeWhile_eq_all_conv[THEN iffD2])
  have dw: "dropWhile isNumChar (run @ post) = post"
    using assms(2,3) by (cases post) (auto simp: list_all_iff dropWhile_append2)
  have "\<not> isWhiteSpace d"
    using assms(1) whitespace_not_digit by blast
  then show ?thesis
    using assms(1) tw dw by (simp add: tokenizeLoop_Cons)
qed

lemma tokenizeLoop_acc:
  "tokenizeLoop s (acc @ acc') = (case tokenizeLoop s acc' of Inl e \<Rightarrow> Inl e | Inr ts \<Rightarrow> Inr (acc @ ts))"
proof (induction s acc' arbitrary: acc rule: tokenizeLoop.induct)
  case (1 tokens)
  show ?case by (simp add: tokenizeLoop_Nil)
next
  case (2 c cs tokens)
  show ?case
    using 2
    by (simp add: tokenizeLoop_Cons isDigit_isNumChar)
qed

lemma tokenizeLoop_append:
  assumes "pre = [] \<or> \<not> isNumChar (last pre)"
  shows "tokenizeLoop (pre @ s) acc =
     (case tokenizeLoop pre acc of Inl e \<Rightarrow> Inl e | Inr ts \<Rightarrow> tokenizeLoop s ts)"
  using assms
proof (induction pre acc rule: tokenizeLoop.induct)
  case (1 tokens)
  show ?case by (simp add: tokenizeLoop_Nil)
next
  case (2 c cs tokens)
  note tokenizeLoop_Cons [simp]
  show ?case
  proof (cases "isDigit c \<and> \<not> isWhiteSpace c")
    case True
    from 2(6) True have ne: "cs \<noteq> []" and lst: "\<not> isNumChar (last cs)"
      by (auto simp: isDigit_isNumChar split: if_splits)
    then have ex: "\<exists>x \<in> set cs. \<not> isNumChar x" using last_in_set by blast
    then have tw: "takeWhile isNumChar (cs @ s) = takeWhile isNumChar cs"
      and dw: "dropWhile isNumChar (cs @ s) = dropWhile isNumChar cs @ s"
      by (auto simp: takeWhile_append1 dropWhile_append1 dest: bspec)
    from ex have dne: "dropWhile isNumChar cs \<noteq> []" by (auto simp: dropWhile_eq_Nil_conv)
    have "last (dropWhile isNumChar cs) = last cs"
      using dne by (metis last_appendR takeWhile_dropWhile_id)
    with lst dne have "dropWhile isNumChar (c # cs) = [] \<or> \<not> isNumChar (last (dropWhile isNumChar (c # cs)))"
      using True by (simp add: isDigit_isNumChar)
    from 2(2)[OF _ _ this] True show ?thesis
      using tw dw by (simp add: isDigit_isNumChar)
  next
    case False
    with 2 show ?thesis
      by (auto split: if_splits)
  qed
qed

subsection \<open>The rounding\<close>

lemma pow2_powi: "pow2 e = 2 powi e"
  by (simp add: pow2_def power_int_def inverse_eq_divide power_one_over)

lemma bitLength_bounds: "0 < n \<Longrightarrow> 2 ^ (bitLength n - 1) \<le> n \<and> n < 2 ^ bitLength n"
proof (induction n rule: bitLength.induct)
  case (1 n)
  show ?case
  proof (cases "n div 2 \<le> 0")
    case True
    with 1(2) have "n = 1" by linarith
    then show ?thesis by (simp add: bitLength.simps[of 1] bitLength.simps[of 0])
  next
    case False
    then have pos: "0 < n div 2" by simp
    from 1(2) have nle: "\<not> n \<le> 0" by simp
    from 1(1)[OF nle pos] have lo: "2 ^ (bitLength (n div 2) - 1) \<le> n div 2"
      and hi: "n div 2 < 2 ^ bitLength (n div 2)" by simp_all
    have k: "0 < bitLength (n div 2)" using pos by (simp add: bitLength.simps[of "n div 2"])
    then obtain k where kk: "bitLength (n div 2) = Suc k" by (cases "bitLength (n div 2)") auto
    have bl: "bitLength n = Suc (Suc k)" using nle kk by (simp add: bitLength.simps[of n])
    have half: "2 * (n div 2) \<le> n" "n < 2 * (n div 2) + 2" by presburger+
    from lo kk have "2 ^ k \<le> n div 2" by simp
    with half(1) have a: "2 ^ Suc k \<le> n" by simp
    from hi kk have "n div 2 < 2 ^ Suc k" by simp
    with half(2) have b: "n < 2 ^ Suc (Suc k)" by simp
    from a b bl show ?thesis by simp
  qed
qed

lemma floorLog2_bounds:
  assumes "0 < q"
  shows "pow2 (floorLog2 q) \<le> q \<and> q < pow2 (floorLog2 q + 1)"
proof -
  obtain a b where ab: "quotient_of q = (a, b)" by (cases "quotient_of q")
  then have b: "0 < b" and q: "q = of_int a / of_int b"
    using quotient_of_denom_pos quotient_of_div by blast+
  with assms have a: "0 < a" by (simp add: zero_less_divide_iff)
  define la lb where "la = bitLength a" and "lb = bitLength b"
  define d where "d = int la - int lb"
  from bitLength_bounds[OF a] have la: "2 ^ (la - 1) \<le> a" "a < 2 ^ la" by (simp_all add: la_def)
  from bitLength_bounds[OF b] have lb: "2 ^ (lb - 1) \<le> b" "b < 2 ^ lb" by (simp_all add: lb_def)
  have la0: "0 < la" using a by (simp add: la_def bitLength.simps[of a])
  have lb0: "0 < lb" using b by (simp add: lb_def bitLength.simps[of b])
  have ra: "(2::rat) powi (int la - 1) \<le> of_int a" "(of_int a :: rat) < 2 powi (int la)"
  proof -
    have e: "int la - 1 = int (la - 1)" using la0 by linarith
    have "(of_int (2 ^ (la - 1)) :: rat) \<le> of_int a" using la(1) by (simp only: of_int_le_iff)
    then have "(2::rat) ^ (la - 1) \<le> of_int a" by simp
    then show "(2::rat) powi (int la - 1) \<le> of_int a"
      unfolding e by (simp only: power_int_of_nat)
    have "(of_int a :: rat) < of_int (2 ^ la)" using la(2) by (simp only: of_int_less_iff)
    then have "(of_int a :: rat) < 2 ^ la" by simp
    then show "(of_int a :: rat) < 2 powi (int la)"
      by (simp only: power_int_of_nat)
  qed
  have rb: "(2::rat) powi (int lb - 1) \<le> of_int b" "(of_int b :: rat) < 2 powi (int lb)"
  proof -
    have e: "int lb - 1 = int (lb - 1)" using lb0 by linarith
    have "(of_int (2 ^ (lb - 1)) :: rat) \<le> of_int b" using lb(1) by (simp only: of_int_le_iff)
    then have "(2::rat) ^ (lb - 1) \<le> of_int b" by simp
    then show "(2::rat) powi (int lb - 1) \<le> of_int b"
      unfolding e by (simp only: power_int_of_nat)
    have "(of_int b :: rat) < of_int (2 ^ lb)" using lb(2) by (simp only: of_int_less_iff)
    then have "(of_int b :: rat) < 2 ^ lb" by simp
    then show "(of_int b :: rat) < 2 powi (int lb)"
      by (simp only: power_int_of_nat)
  qed
  have bpos: "(0::rat) < of_int b" using b by simp
  have upper: "q < 2 powi (d + 1)"
  proof -
    have "q * of_int b = of_int a" using q bpos by simp
    also have "\<dots> < (2::rat) powi (int la)" by (rule ra(2))
    also have "\<dots> = 2 powi ((d + 1) + (int lb - 1))"
      by (simp add: d_def)
    also have "\<dots> = 2 powi (d + 1) * 2 powi (int lb - 1)"
      by (rule power_int_add) simp
    also have "\<dots> \<le> 2 powi (d + 1) * of_int b"
      using rb(1) by (intro mult_left_mono) simp_all
    finally show ?thesis using bpos by simp
  qed
  have lower: "2 powi (d - 1) \<le> q"
  proof -
    have "(2::rat) powi (d - 1) * of_int b \<le> 2 powi (d - 1) * 2 powi (int lb)"
      using rb(2) by (intro mult_left_mono) simp_all
    also have "\<dots> = 2 powi ((d - 1) + int lb)"
      by (rule power_int_add[symmetric]) simp
    also have "\<dots> = 2 powi (int la - 1)"
      by (simp add: d_def)
    also have "\<dots> \<le> of_int a" by (rule ra(1))
    also have "\<dots> = q * of_int b" using q bpos by simp
    finally show ?thesis using bpos by simp
  qed
  have fl: "floorLog2 q = (if pow2 d \<le> q then d else d - 1)"
    by (simp add: floorLog2_def ab d_def la_def lb_def Let_def)
  show ?thesis
    using upper lower by (auto simp: fl pow2_powi)
qed

lemma roundHalfEven_nearest: "\<bar>of_int (roundHalfEven q) - q\<bar> \<le> 1 / 2"
proof -
  have "of_int \<lfloor>q\<rfloor> \<le> q" "q < of_int \<lfloor>q\<rfloor> + 1"
    by linarith+
  then show ?thesis
    by (auto simp: roundHalfEven_def Let_def)
qed

lemma roundHalfEven_tie: "q - of_int \<lfloor>q\<rfloor> = 1 / 2 \<Longrightarrow> even (roundHalfEven q)"
  by (simp add: roundHalfEven_def Let_def)

lemma roundHalfEven_exact: "roundHalfEven (of_int n) = n"
  by (simp add: roundHalfEven_def Let_def)

subsection \<open>The parser and the arithmetic\<close>

lemmas parse_simps = parseAddSub.simps addSubLoop.simps parseMulDiv.simps mulDivLoop.simps
  parsePercentage.simps parseUnary.simps parsePrimary.simps


lemma num_100: "num 100 = Finite False 100"
  by code_simp

text \<open>
  The arithmetic on some well-known values: \<open>0.1 + 0.2\<close> is 0.30000000000000004,
  \<open>2 ^ 53 + 1\<close> is read as \<open>2 ^ 53\<close>, \<open>1 / 3\<close> is 0.3333333333333333, zero keeps its
  sign, and infinities and NaN arise as in IEEE 754.
\<close>

lemma binary64_examples:
  "js_add (parseFloat (js ''0.1'')) (parseFloat (js ''0.2''))
     = Finite False (1351079888211149 / 4503599627370496)"
  "parseFloat (js ''9007199254740993'') = Finite False 9007199254740992"
  "js_div (num 1) (num 3) = Finite False (6004799503160661 / 18014398509481984)"
  "js_sub (num 5) (num 5) = Finite False 0"
  "js_mul (js_neg (num 0)) (num 5) = Finite True 0"
  "js_div (num 1) (js_neg (num 0)) = Infinity True"
  "js_div (num 1) (Infinity False) = Finite False 0"
  "js_sub (Infinity False) (Infinity False) = NaN"
  "js_mul (num 0) (Infinity False) = NaN"
  by code_simp+

lemma percent_then_number:
  "parseUnary ts = Inr (v, Op chPercent # Number b # rest) \<Longrightarrow>
     parseAddSub ts = Inr (js_div v (num 100), Number b # rest)"
  by (simp add: parseAddSub.simps[of ts] parseMulDiv.simps[of ts] parsePercentage.simps[of ts]
      addSubLoop.simps mulDivLoop.simps)

lemma percent_then_percent:
  "parseUnary ts = Inr (v, Op chPercent # Op chPercent # rest) \<Longrightarrow>
     parseAddSub ts = Inr (js_div v (num 100), Op chPercent # rest)"
  by (simp add: parseAddSub.simps[of ts] parseMulDiv.simps[of ts] parsePercentage.simps[of ts]
      addSubLoop.simps mulDivLoop.simps char_defs)


subsection \<open>Signs, percent and division\<close>

lemma parseUnary_sign:
  "c = chPlus \<or> c = chMinus \<Longrightarrow>
     parseUnary (Op c # ts) =
       (case parseUnary ts of Inl e \<Rightarrow> Inl e
        | Inr (v, r) \<Rightarrow> Inr (if c = chMinus then js_neg v else v, r))"
  by (auto simp: parseUnary.simps[of "Op c # ts"] split: sum.splits)

lemma parseUnary_signs:
  "list_all (\<lambda>c. c = chPlus \<or> c = chMinus) signs \<Longrightarrow>
     parseUnary (map Op signs @ ts) =
       (case parseUnary ts of Inl e \<Rightarrow> Inl e | Inr (v, r) \<Rightarrow> Inr (applySigns signs v, r))"
proof (induction signs)
  case Nil
  show ?case by (simp add: applySigns_def split: sum.splits)
next
  case (Cons c signs)
  then have c: "c = chPlus \<or> c = chMinus" and rest: "list_all (\<lambda>c. c = chPlus \<or> c = chMinus) signs"
    by simp_all
  show ?case
    using Cons.IH[OF rest] parseUnary_sign[OF c, of "map Op signs @ ts"]
    by (simp add: applySigns_def split: sum.splits)
qed

lemma percent_binds_tighter:
  "parseUnary ts = Inr (b, Op chPercent # r) \<Longrightarrow>
     mulDivLoop a (Op chStar # ts) = mulDivLoop (js_mul a (js_div b (num 100))) r
     \<and> mulDivLoop a (Op chSlash # ts) = mulDivLoop (js_div a (js_div b (num 100))) r"
  by (simp add: mulDivLoop.simps[of a "Op _ # ts"] parsePercentage.simps[of ts] char_defs)

lemma percent_left_operand:
  "parseUnary ts = Inr (a, Op chPercent # r) \<Longrightarrow> parseMulDiv ts = mulDivLoop (js_div a (num 100)) r"
  by (simp add: parseMulDiv.simps[of ts] parsePercentage.simps[of ts])



subsection \<open>Parentheses\<close>

lemma parse_keeps_depth:
  "\<forall>v r d. parseAddSub ts1 = Inr (v, r) \<longrightarrow> scanParens d ts1 = scanParens d r"
  "\<forall>v r d. addSubLoop l2 ts2 = Inr (v, r) \<longrightarrow> scanParens d ts2 = scanParens d r"
  "\<forall>v r d. parseMulDiv ts3 = Inr (v, r) \<longrightarrow> scanParens d ts3 = scanParens d r"
  "\<forall>v r d. mulDivLoop l4 ts4 = Inr (v, r) \<longrightarrow> scanParens d ts4 = scanParens d r"
  "\<forall>v r d. parsePercentage ts5 = Inr (v, r) \<longrightarrow> scanParens d ts5 = scanParens d r"
  "\<forall>v r d. parseUnary ts6 = Inr (v, r) \<longrightarrow> scanParens d ts6 = scanParens d r"
  "\<forall>v r d. parsePrimary ts7 = Inr (v, r) \<longrightarrow> scanParens d ts7 = scanParens d r"
proof (induct rule: parseAddSub_addSubLoop_parseMulDiv_mulDivLoop_parsePercentage_parseUnary_parsePrimary.induct)
  case (1 ts)
  then show ?case
    by (auto simp: parseAddSub.simps[of ts] split: sum.splits prod.splits)
next
  case (2 left ts)
  then show ?case
    by (auto simp: addSubLoop.simps[of left ts] split: sum.splits prod.splits list.splits token.splits if_splits)
next
  case (3 ts)
  then show ?case
    by (auto simp: parseMulDiv.simps[of ts] split: sum.splits prod.splits)
next
  case (4 left ts)
  then show ?case
    by (auto simp: mulDivLoop.simps[of left ts] split: sum.splits prod.splits list.splits token.splits if_splits)
next
  case (5 ts)
  then show ?case
    by (auto simp: parsePercentage.simps[of ts] split: sum.splits prod.splits list.splits token.splits if_splits)
next
  case (6 ts)
  then show ?case
    by (auto simp: parseUnary.simps[of ts] split: sum.splits prod.splits list.splits token.splits if_splits)
next
  case (7 ts)
  then show ?case
    by (auto simp: parsePrimary.simps[of ts] split: sum.splits prod.splits list.splits token.splits paren.splits if_splits)
qed


lemma scanParens_append:
  "scanParens d (xs @ ys) = (case scanParens d xs of None \<Rightarrow> None | Some d' \<Rightarrow> scanParens d' ys)"
  by (induction d xs rule: scanParens.induct) auto

lemma scanParenChars_run:
  "scanParenChars d (dropWhile isNumChar cs) = scanParenChars d cs"
  by (induction cs) (auto simp: isNumChar_def isDigit_def char_defs)

lemma tokenizeLoop_parens:
  "tokenizeLoop s acc = Inr ts \<Longrightarrow>
     scanParens d ts = (case scanParens d acc of None \<Rightarrow> None | Some d' \<Rightarrow> scanParenChars d' s)"
proof (induction s acc arbitrary: d rule: tokenizeLoop.induct)
  case (1 tokens)
  then show ?case
    by (auto simp: tokenizeLoop_Nil split: option.splits)
next
  case (2 c cs tokens)
  have np: "c \<noteq> chLParen \<and> c \<noteq> chRParen" if "isWhiteSpace c \<or> isDigit c \<or> isOperator c"
    using that whitespace_not_special[of c] digit_not_special[of c]
    by (auto simp: isOperator_def char_defs)
  show ?case
  proof (cases "isWhiteSpace c")
    case True
    then have "c \<noteq> chLParen" "c \<noteq> chRParen" using np by blast+
    with 2(1)[OF True] 2(6) True show ?thesis
      by (simp add: tokenizeLoop_Cons split: option.splits)
  next
    case ws: False
    show ?thesis
    proof (cases "isDigit c")
      case True
      from 2(6) ws True have "tokenizeLoop (dropWhile isNumChar (c # cs))
          (tokens @ [Number (parseFloat (takeWhile isNumChar (c # cs)))]) = Inr ts"
        by (simp add: tokenizeLoop_Cons isDigit_isNumChar)
      moreover from True have "c \<noteq> chLParen" "c \<noteq> chRParen" using np by blast+
      ultimately show ?thesis
        using 2(2)[OF ws True, of d] True
        by (simp add: scanParens_append scanParenChars_run isDigit_isNumChar split: option.splits)
    next
      case dg: False
      show ?thesis
      proof (cases "isOperator c")
        case True
        from 2(6) ws dg True have "tokenizeLoop cs (tokens @ [Op c]) = Inr ts"
          by (simp add: tokenizeLoop_Cons)
        moreover from True have "c \<noteq> chLParen" "c \<noteq> chRParen" using np by blast+
        ultimately show ?thesis
          using 2(3)[OF ws dg True, of d]
          by (simp add: scanParens_append split: option.splits)
      next
        case op: False
        show ?thesis
        proof (cases "c = chLParen")
          case True
          from 2(6) ws dg op True have "tokenizeLoop cs (tokens @ [Paren LParen]) = Inr ts"
            by (simp add: tokenizeLoop_Cons)
          then show ?thesis
            using 2(4)[OF ws dg op True, of d] True
            by (simp add: scanParens_append split: option.splits)
        next
          case lp: False
          show ?thesis
          proof (cases "c = chRParen")
            case True
            from 2(6) ws dg op lp True have "tokenizeLoop cs (tokens @ [Paren RParen]) = Inr ts"
              by (simp add: tokenizeLoop_Cons)
            then show ?thesis
              using 2(5)[OF ws dg op lp True, of d] True lp
              by (simp add: scanParens_append split: option.splits)
          next
            case False
            with 2(6) ws dg op lp show ?thesis
              by (simp add: tokenizeLoop_Cons)
          qed
        qed
      qed
    qed
  qed
qed

lemma tokenize_parens: "tokenize s = Inr ts \<Longrightarrow> scanParens d ts = scanParenChars d s"
  using tokenizeLoop_parens[of s "[]" ts d] by (simp add: tokenize_def)

lemma scanParenChars_filter:
  "scanParenChars d (filter (\<lambda>c. c = chLParen \<or> c = chRParen) s) = scanParenChars d s"
  by (induction s arbitrary: d) auto

lemma filter_dropWhile_disjoint:
  "(\<And>x. Q x \<Longrightarrow> \<not> P x) \<Longrightarrow> filter P (dropWhile Q xs) = filter P xs"
  by (induction xs) auto

lemma filter_parens_trim:
  "filter (\<lambda>c. c = chLParen \<or> c = chRParen) (trim s) = filter (\<lambda>c. c = chLParen \<or> c = chRParen) s"
proof -
  have d: "isWhiteSpace x \<Longrightarrow> \<not> (x = chLParen \<or> x = chRParen)" for x
    using whitespace_not_special[of x] by blast
  show ?thesis
    unfolding trim_def
    by (simp add: rev_filter[symmetric] filter_dropWhile_disjoint[of isWhiteSpace, OF d])
qed

lemma scanParenChars_trim: "scanParenChars d (trim s) = scanParenChars d s"
  using scanParenChars_filter[of d "trim s"] scanParenChars_filter[of d s]
  by (simp add: filter_parens_trim)

lemma parseExpression_balanced:
  "parseExpression expr = Inr v \<Longrightarrow> scanParenChars 0 expr = Some 0"
proof -
  assume ok: "parseExpression expr = Inr v"
  then obtain ts where ts: "tokenize expr = Inr ts"
    by (auto simp: parseExpression_def split: sum.splits)
  with ok have "parseAddSub ts = Inr (v, [])"
    by (auto simp: parseExpression_def split: sum.splits if_splits)
  then have "scanParens 0 ts = scanParens 0 []"
    using parse_keeps_depth(1) by blast
  with tokenize_parens[OF ts, of 0] show ?thesis by simp
qed

section \<open>Properties of the guard\<close>

text \<open>
  C1.  For every input string \<open>evaluateMathExpressionSimple\<close> returns \<open>undefined\<close> or a
  finite number.  The tokenizer and the parser are total functions (their recursion is
  well-founded), so the call returns; an error thrown while lexing or parsing, and a
  result that is not finite, both end in \<open>undefined\<close>.
\<close>

theorem evaluate_finite_or_invalid:
  "(evaluateMathExpressionSimple s = None
      \<or> (\<exists>v. evaluateMathExpressionSimple s = Some v \<and> isFinite v))
   \<and> (tokenize (trim s) = Inl e \<longrightarrow> evaluateMathExpressionSimple s = None)
   \<and> (parseExpression (trim s) = Inl e \<longrightarrow> evaluateMathExpressionSimple s = None)
   \<and> (parseExpression (trim s) = Inr v \<and> \<not> isFinite v \<longrightarrow> evaluateMathExpressionSimple s = None)"
  by (auto simp: evaluate_cases parseExpression_def split: sum.splits)

theorem evaluate_finite_or_invalid_witness:
  "tokenize (trim (js ''.5'')) = Inl InvalidCharacter
   \<and> evaluateMathExpressionSimple (js ''.5'') = None
   \<and> parseExpression (trim (js ''(2 + 3'')) = Inl MissingClosingParenthesis
   \<and> evaluateMathExpressionSimple (js ''(2 + 3'') = None
   \<and> parseExpression (trim (js ''5 / 0'')) = Inr (Infinity False)
   \<and> evaluateMathExpressionSimple (js ''5 / 0'') = None"
proof -
  have lex: "tokenize (trim (js ''.5'')) = Inl InvalidCharacter"
    by code_simp
  have syn: "parseExpression (trim (js ''(2 + 3'')) = Inl MissingClosingParenthesis"
    by code_simp
  have inf: "parseExpression (trim (js ''5 / 0'')) = Inr (Infinity False)"
    by code_simp
  from lex have 1: "evaluateMathExpressionSimple (js ''.5'') = None"
    using evaluate_finite_or_invalid [of "js ''.5''" InvalidCharacter] by blast
  from syn have 2: "evaluateMathExpressionSimple (js ''(2 + 3'') = None"
    using evaluate_finite_or_invalid [of "js ''(2 + 3''" MissingClosingParenthesis] by blast
  from inf have 3: "evaluateMathExpressionSimple (js ''5 / 0'') = None"
    using evaluate_finite_or_invalid [of "js ''5 / 0''" _ "Infinity False"] by simp
  from lex syn inf 1 2 3 show ?thesis by blast
qed

text \<open>
  C2.  When the trimmed input is empty or longer than 200 code units the result is
  \<open>undefined\<close> whatever the parser would do: the statement holds for the guard around any
  function \<open>parse\<close>, so no lexing or parsing contributes to it.
\<close>

theorem evaluate_rejects_empty_or_long:
  "trim s = [] \<or> 200 < length (trim s) \<Longrightarrow>
     evaluateWith parse s = None \<and> evaluateMathExpressionSimple s = None"
  by (auto simp: evaluateMathExpressionSimple_def evaluateWith_def Let_def)

theorem evaluate_rejects_empty_or_long_witness:
  "trim (js ''   '') = []
   \<and> evaluateWith (\<lambda>expr. Inr (Finite False 1)) (js ''   '') = None
   \<and> evaluateMathExpressionSimple (js ''   '') = None
   \<and> evaluateMathExpressionSimple [] = None
   \<and> 200 < length (trim (replicate 201 (0x31 :: js_char)))
   \<and> evaluateWith (\<lambda>expr. Inr (Finite False 1)) (replicate 201 0x31) = None
   \<and> evaluateMathExpressionSimple (replicate 201 0x31) = None"
proof -
  have blank: "trim (js ''   '') = []"
    by code_simp
  have empty: "trim ([] :: js_string) = []"
    by (simp add: trim_def)
  have long: "200 < length (trim (replicate 201 (0x31 :: js_char)))"
    by code_simp
  show ?thesis
    using blank long
      evaluate_rejects_empty_or_long [of "js ''   ''" "\<lambda>expr. Inr (Finite False 1)"]
      evaluate_rejects_empty_or_long [of "[]" parseExpression] empty
      evaluate_rejects_empty_or_long [of "replicate 201 0x31" "\<lambda>expr. Inr (Finite False 1)"]
    by blast
qed

text \<open>
  C3.  An input with a character outside the class of digits, \<open>.\<close>, whitespace, \<open>+\<close>,
  \<open>-\<close>, \<open>*\<close>, \<open>/\<close>, \<open>%\<close>, \<open>(\<close> and \<open>)\<close> evaluates to \<open>undefined\<close>.
\<close>

theorem evaluate_rejects_disallowed_character:
  "\<exists>c \<in> set s. \<not> isAllowed c \<Longrightarrow> evaluateMathExpressionSimple s = None"
proof -
  assume "\<exists>c \<in> set s. \<not> isAllowed c"
  then obtain c where c: "c \<in> set s" "\<not> isAllowed c" by blast
  from c(2) have "\<not> isWhiteSpace c" using whitespace_allowed by blast
  with c(1) have "c \<in> set (trim s)" by (rule trim_keeps)
  with c(2) have "\<not> list_all isAllowed (trim s)" by (auto simp: list_all_iff)
  then show ?thesis by (simp add: evaluate_cases)
qed

theorem evaluate_rejects_disallowed_character_witness:
  "(\<exists>c \<in> set (js ''2 + a''). \<not> isAllowed c) \<and> evaluateMathExpressionSimple (js ''2 + a'') = None"
proof -
  have bad: "\<exists>c \<in> set (js ''2 + a''). \<not> isAllowed c"
    by code_simp
  then show ?thesis
    using evaluate_rejects_disallowed_character [of "js ''2 + a''"] by blast
qed

section \<open>Properties of the tokenizer\<close>

text \<open>
  C4, as the code has it.  The claim that \<open>tokenize\<close> succeeds on every string of
  admissible characters fails on \<open>.5\<close>: a number starts at a digit only, and a dot met
  outside a number falls through to the error.
\<close>

theorem tokenize_leading_dot_fails:
  "list_all isAllowed (js ''.5'') \<and> tokenize (js ''.5'') = Inl InvalidCharacter"
  by code_simp

text \<open>
  C4, amended.  \<open>tokenize\<close> succeeds exactly on the strings of admissible characters
  without a stray dot, and it fails with the invalid-character error on every other
  string: one with a character outside the class, or with a dot that no digit and no dot
  directly precedes.
\<close>

theorem tokenize_succeeds_iff:
  "(list_all isAllowed s \<and> \<not> strayDot s \<longrightarrow> (\<exists>ts. tokenize s = Inr ts))
   \<and> (\<not> list_all isAllowed s \<or> strayDot s \<longrightarrow> tokenize s = Inl InvalidCharacter)"
proof -
  have iff: "(\<exists>ts. tokenize s = Inr ts) \<longleftrightarrow> list_all isAllowed s \<and> \<not> strayDot s"
    unfolding tokenize_def strayDot_def by (rule tokenizeLoop_succeeds_iff)
  have err: "tokenize s = Inl InvalidCharacter" if "\<not> (\<exists>ts. tokenize s = Inr ts)"
  proof (cases "tokenize s")
    case (Inl e)
    then show ?thesis using tokenizeLoop_error[of s "[]" e] by (simp add: tokenize_def)
  next
    case (Inr ts)
    with that show ?thesis by blast
  qed
  show ?thesis using iff err by blast
qed

theorem tokenize_succeeds_iff_witness:
  "list_all isAllowed (js ''1.5 + (2)'') \<and> \<not> strayDot (js ''1.5 + (2)'')
   \<and> (\<exists>ts. tokenize (js ''1.5 + (2)'') = Inr ts)
   \<and> strayDot (js ''1 + .5'') \<and> tokenize (js ''1 + .5'') = Inl InvalidCharacter
   \<and> \<not> list_all isAllowed (js ''1 + x'') \<and> tokenize (js ''1 + x'') = Inl InvalidCharacter"
proof -
  have good: "list_all isAllowed (js ''1.5 + (2)'') \<and> \<not> strayDot (js ''1.5 + (2)'')"
    by code_simp
  have stray: "strayDot (js ''1 + .5'')"
    by code_simp
  have bad: "\<not> list_all isAllowed (js ''1 + x'')"
    by code_simp
  show ?thesis
    using good stray bad
      tokenize_succeeds_iff [of "js ''1.5 + (2)''"]
      tokenize_succeeds_iff [of "js ''1 + .5''"]
      tokenize_succeeds_iff [of "js ''1 + x''"]
    by blast
qed

text \<open>
  C9.  A maximal run of digits and dots that starts with a digit becomes one Number token,
  however many dots it holds: with \<open>pre\<close> before the run and \<open>post\<close> after it, neither
  touching the run with a digit or a dot, the tokens are those of \<open>pre\<close>, the one Number
  of the run, and those of \<open>post\<close>; the run itself raises no error.
\<close>

theorem tokenize_number_run:
  assumes "isDigit d" "list_all isNumChar run"
    and "pre = [] \<or> \<not> isNumChar (last pre)" "post = [] \<or> \<not> isNumChar (hd post)"
  shows "tokenize (pre @ (d # run) @ post) =
     (case tokenize pre of
        Inl e \<Rightarrow> Inl e
      | Inr ts1 \<Rightarrow>
          (case tokenize post of
             Inl e \<Rightarrow> Inl e
           | Inr ts2 \<Rightarrow> Inr (ts1 @ [Number (parseFloat (d # run))] @ ts2)))"
proof -
  have "tokenize (pre @ (d # run) @ post) =
      (case tokenizeLoop pre [] of Inl e \<Rightarrow> Inl e | Inr ts \<Rightarrow> tokenizeLoop (d # run @ post) ts)"
    unfolding tokenize_def using tokenizeLoop_append[OF assms(3)] by simp
  also have "\<dots> = (case tokenizeLoop pre [] of Inl e \<Rightarrow> Inl e
      | Inr ts \<Rightarrow> tokenizeLoop post (ts @ [Number (parseFloat (d # run))]))"
    by (simp add: tokenizeLoop_number_run[OF assms(1,2,4)] cong: sum.case_cong)
  also have "\<dots> = (case tokenize pre of
        Inl e \<Rightarrow> Inl e
      | Inr ts1 \<Rightarrow>
          (case tokenize post of
             Inl e \<Rightarrow> Inl e
           | Inr ts2 \<Rightarrow> Inr (ts1 @ [Number (parseFloat (d # run))] @ ts2)))"
  proof -
    have "tokenizeLoop post (ts @ [Number (parseFloat (d # run))]) =
        (case tokenizeLoop post [] of Inl e \<Rightarrow> Inl e
         | Inr ts2 \<Rightarrow> Inr (ts @ [Number (parseFloat (d # run))] @ ts2))" for ts
      using tokenizeLoop_acc[of post "ts @ [Number (parseFloat (d # run))]" "[]"]
      by (simp split: sum.splits)
    then show ?thesis
      unfolding tokenize_def by (simp split: sum.splits)
  qed
  finally show ?thesis .
qed

theorem tokenize_number_run_witness:
  "tokenize (js ''1.2.3'') = Inr [Number (Finite False (5404319552844595 / 4503599627370496))]
   \<and> tokenize (js ''2 + 1.2.3 * 4'') =
       Inr [Number (Finite False 2), Op chPlus,
            Number (Finite False (5404319552844595 / 4503599627370496)),
            Op chStar, Number (Finite False 4)]"
proof -
  have d: "isDigit (0x31 :: js_char)"
    by code_simp
  have run: "list_all isNumChar (js ''.2.3'')"
    by code_simp
  have pre: "js ''2 + '' = [] \<or> \<not> isNumChar (last (js ''2 + ''))"
    by code_simp
  have post: "js '' * 4'' = [] \<or> \<not> isNumChar (hd (js '' * 4''))"
    by code_simp
  have run_val: "parseFloat (0x31 # js ''.2.3'') = Finite False (5404319552844595 / 4503599627370496)"
    by code_simp
  have toks_pre: "tokenize (js ''2 + '') = Inr [Number (Finite False 2), Op chPlus]"
    by code_simp
  have toks_post: "tokenize (js '' * 4'') = Inr [Op chStar, Number (Finite False 4)]"
    by code_simp
  have toks_nil: "tokenize [] = Inr []"
    by (simp add: tokenize_def tokenizeLoop_Nil)
  have whole: "js ''2 + '' @ (0x31 # js ''.2.3'') @ js '' * 4'' = js ''2 + 1.2.3 * 4''"
    and alone: "[] @ (0x31 # js ''.2.3'') @ [] = js ''1.2.3''"
    by (simp_all add: js_def)
  have 1: "tokenize (js ''1.2.3'') = Inr [Number (Finite False (5404319552844595 / 4503599627370496))]"
    using tokenize_number_run [OF d run, of "[]" "[]"] alone
    by (simp add: toks_nil run_val)
  have 2: "tokenize (js ''2 + 1.2.3 * 4'') =
       Inr [Number (Finite False 2), Op chPlus,
            Number (Finite False (5404319552844595 / 4503599627370496)),
            Op chStar, Number (Finite False 4)]"
    using tokenize_number_run [OF d run pre post] whole
    by (simp add: toks_pre toks_post run_val)
  from 1 2 show ?thesis by blast
qed

section \<open>Properties of the parser\<close>

text \<open>
  C5.  \<open>*\<close> and \<open>/\<close> bind tighter than \<open>+\<close> and \<open>-\<close>, chains of either kind are
  evaluated from the left, parentheses override the precedence, and whitespace yields no
  token: \<open>2 + 3 * 4\<close> is 14, \<open>(2 + 3) * 4\<close> is 20 and \<open>10 * (5 + 3)\<close>, with blanks
  around every token, is 80.
\<close>

theorem precedence_and_whitespace:
  "evaluateMathExpressionSimple (js ''2 + 3 * 4'') = Some (Finite False 14)
   \<and> evaluateMathExpressionSimple (js ''(2 + 3) * 4'') = Some (Finite False 20)
   \<and> evaluateMathExpressionSimple (js ''  10   *   (  5 + 3 )  '') = Some (Finite False 80)
   \<and> parseAddSub [Number a, Op chPlus, Number b, Op chStar, Number c] = Inr (js_add a (js_mul b c), [])
   \<and> parseAddSub [Number a, Op chStar, Number b, Op chPlus, Number c] = Inr (js_add (js_mul a b) c, [])
   \<and> parseAddSub [Number a, Op chMinus, Number b, Op chSlash, Number c] = Inr (js_sub a (js_div b c), [])
   \<and> parseAddSub [Paren LParen, Number a, Op chPlus, Number b, Paren RParen, Op chStar, Number c]
       = Inr (js_mul (js_add a b) c, [])
   \<and> parseAddSub [Number a, Op chMinus, Number b, Op chPlus, Number c] = Inr (js_add (js_sub a b) c, [])
   \<and> parseAddSub [Number a, Op chSlash, Number b, Op chStar, Number c] = Inr (js_mul (js_div a b) c, [])
   \<and> (isWhiteSpace w \<longrightarrow> tokenizeLoop (w # cs) tokens = tokenizeLoop cs tokens)"
proof (intro conjI)
  show "evaluateMathExpressionSimple (js ''2 + 3 * 4'') = Some (Finite False 14)"
    by code_simp
  show "evaluateMathExpressionSimple (js ''(2 + 3) * 4'') = Some (Finite False 20)"
    by code_simp
  show "evaluateMathExpressionSimple (js ''  10   *   (  5 + 3 )  '') = Some (Finite False 80)"
    by code_simp
  show "isWhiteSpace w \<longrightarrow> tokenizeLoop (w # cs) tokens = tokenizeLoop cs tokens"
    by (simp add: tokenizeLoop_Cons)
qed (simp_all add: parse_simps char_defs)

theorem precedence_and_whitespace_witness:
  "isWhiteSpace 0x20 \<and> tokenizeLoop (0x20 # js ''7'') [] = tokenizeLoop (js ''7'') []"
proof -
  have "isWhiteSpace 0x20"
    by (simp add: isWhiteSpace_def)
  then show ?thesis
    using precedence_and_whitespace [of _ _ _ "0x20" "js ''7''" "[]"] by blast
qed

text \<open>
  C6.  \<open>%\<close> is a postfix operator that divides the value of the unary expression before
  it by 100; the operands of \<open>*\<close> and of \<open>/\<close> take their \<open>%\<close> with them, so it
  binds tighter than both; and unary signs chain to any length: \<open>50%\<close> is 0.5,
  \<open>100 * 50%\<close> is 50, \<open>--5\<close> is 5 and \<open>-50%\<close> is -0.5.
\<close>

theorem percent_postfix_and_unary_chain:
  "evaluateMathExpressionSimple (js ''50%'') = Some (Finite False (1 / 2))
   \<and> evaluateMathExpressionSimple (js ''100 * 50%'') = Some (Finite False 50)
   \<and> evaluateMathExpressionSimple (js ''--5'') = Some (Finite False 5)
   \<and> evaluateMathExpressionSimple (js ''-50%'') = Some (Finite True (1 / 2))
   \<and> parsePercentage (Number a # Op chPercent # rest) = Inr (js_div a (num 100), rest)
   \<and> parseMulDiv [Number a, Op chStar, Number b, Op chPercent] = Inr (js_mul a (js_div b (num 100)), [])
   \<and> parseMulDiv [Number a, Op chPercent, Op chStar, Number b] = Inr (js_mul (js_div a (num 100)) b, [])
   \<and> parseUnary (Op chMinus # Op chMinus # Number a # rest) = Inr (js_neg (js_neg a), rest)
   \<and> parseUnary (Op chPlus # Op chMinus # Op chPlus # Number a # rest) = Inr (js_neg a, rest)
   \<and> parsePercentage (Op chMinus # Number a # Op chPercent # rest) = Inr (js_div (js_neg a) (num 100), rest)
   \<and> num 100 = Finite False 100
   \<and> evaluateMathExpressionSimple (js ''100 / 50%'') = Some (Finite False 200)
   \<and> parseMulDiv [Number a, Op chSlash, Number b, Op chPercent] = Inr (js_div a (js_div b (num 100)), [])
   \<and> parseMulDiv [Number a, Op chPercent, Op chSlash, Number b] = Inr (js_div (js_div a (num 100)) b, [])
   \<and> (parseUnary ts = Inr (v, Op chPercent # r) \<longrightarrow>
        parsePercentage ts = Inr (js_div v (num 100), r)
        \<and> parseMulDiv ts = mulDivLoop (js_div v (num 100)) r
        \<and> mulDivLoop left (Op chStar # ts) = mulDivLoop (js_mul left (js_div v (num 100))) r
        \<and> mulDivLoop left (Op chSlash # ts) = mulDivLoop (js_div left (js_div v (num 100))) r)
   \<and> (list_all (\<lambda>c. c = chPlus \<or> c = chMinus) signs \<longrightarrow>
        parseUnary (map Op signs @ operand) =
          (case parseUnary operand of
             Inl e \<Rightarrow> Inl e
           | Inr (x, r') \<Rightarrow> Inr (applySigns signs x, r')))"
proof (intro conjI)
  show "evaluateMathExpressionSimple (js ''50%'') = Some (Finite False (1 / 2))"
    by code_simp
  show "evaluateMathExpressionSimple (js ''100 * 50%'') = Some (Finite False 50)"
    by code_simp
  show "evaluateMathExpressionSimple (js ''--5'') = Some (Finite False 5)"
    by code_simp
  show "evaluateMathExpressionSimple (js ''-50%'') = Some (Finite True (1 / 2))"
    by code_simp
  show "num 100 = Finite False 100"
    by (rule num_100)
  show "evaluateMathExpressionSimple (js ''100 / 50%'') = Some (Finite False 200)"
    by code_simp
  show "parseUnary ts = Inr (v, Op chPercent # r) \<longrightarrow>
        parsePercentage ts = Inr (js_div v (num 100), r)
        \<and> parseMulDiv ts = mulDivLoop (js_div v (num 100)) r
        \<and> mulDivLoop left (Op chStar # ts) = mulDivLoop (js_mul left (js_div v (num 100))) r
        \<and> mulDivLoop left (Op chSlash # ts) = mulDivLoop (js_div left (js_div v (num 100))) r"
    using percent_binds_tighter[of ts v r left] percent_left_operand[of ts v r]
    by (simp add: parsePercentage.simps[of ts])
  show "list_all (\<lambda>c. c = chPlus \<or> c = chMinus) signs \<longrightarrow>
        parseUnary (map Op signs @ operand) =
          (case parseUnary operand of
             Inl e \<Rightarrow> Inl e
           | Inr (x, r') \<Rightarrow> Inr (applySigns signs x, r'))"
    using parseUnary_signs[of signs operand] by blast
qed (simp_all add: parse_simps char_defs)

theorem percent_postfix_and_unary_chain_witness:
  "parseUnary [Op chMinus, Number (Finite False 50), Op chPercent, Op chStar, Number (Finite False 3)]
       = Inr (Finite True 50, [Op chPercent, Op chStar, Number (Finite False 3)])
   \<and> parsePercentage [Op chMinus, Number (Finite False 50), Op chPercent, Op chStar, Number (Finite False 3)]
       = Inr (js_div (Finite True 50) (num 100), [Op chStar, Number (Finite False 3)])
   \<and> mulDivLoop (Finite False 7)
         [Op chSlash, Op chMinus, Number (Finite False 50), Op chPercent, Op chStar, Number (Finite False 3)]
       = mulDivLoop (js_div (Finite False 7) (js_div (Finite True 50) (num 100)))
           [Op chStar, Number (Finite False 3)]
   \<and> list_all (\<lambda>c. c = chPlus \<or> c = chMinus) [chMinus, chPlus, chMinus, chMinus]
   \<and> parseUnary [Number (Finite False 5), Op chPercent] = Inr (Finite False 5, [Op chPercent])
   \<and> parseUnary (map Op [chMinus, chPlus, chMinus, chMinus] @ [Number (Finite False 5), Op chPercent])
       = Inr (applySigns [chMinus, chPlus, chMinus, chMinus] (Finite False 5), [Op chPercent])
   \<and> applySigns [chMinus, chPlus, chMinus, chMinus] (Finite False 5) = Finite True 5"
proof -
  have u: "parseUnary [Op chMinus, Number (Finite False 50), Op chPercent, Op chStar, Number (Finite False 3)]
       = Inr (Finite True 50, [Op chPercent, Op chStar, Number (Finite False 3)])"
    by (simp add: parse_simps char_defs)
  have signs: "list_all (\<lambda>c. c = chPlus \<or> c = chMinus) [chMinus, chPlus, chMinus, chMinus]"
    by simp
  have operand: "parseUnary [Number (Finite False 5), Op chPercent] = Inr (Finite False 5, [Op chPercent])"
    by (simp add: parse_simps)
  have applied: "applySigns [chMinus, chPlus, chMinus, chMinus] (Finite False 5) = Finite True 5"
    by (simp add: applySigns_def char_defs)
  have 1: "parsePercentage [Op chMinus, Number (Finite False 50), Op chPercent, Op chStar, Number (Finite False 3)]
       = Inr (js_div (Finite True 50) (num 100), [Op chStar, Number (Finite False 3)])
     \<and> mulDivLoop (Finite False 7)
         [Op chSlash, Op chMinus, Number (Finite False 50), Op chPercent, Op chStar, Number (Finite False 3)]
       = mulDivLoop (js_div (Finite False 7) (js_div (Finite True 50) (num 100)))
           [Op chStar, Number (Finite False 3)]"
    using u percent_postfix_and_unary_chain
      [where ts = "[Op chMinus, Number (Finite False 50), Op chPercent, Op chStar, Number (Finite False 3)]"
         and v = "Finite True 50" and r = "[Op chStar, Number (Finite False 3)]"
         and left = "Finite False 7"]
    by simp
  have 2: "parseUnary (map Op [chMinus, chPlus, chMinus, chMinus] @ [Number (Finite False 5), Op chPercent])
       = Inr (applySigns [chMinus, chPlus, chMinus, chMinus] (Finite False 5), [Op chPercent])"
    using signs percent_postfix_and_unary_chain
      [where signs = "[chMinus, chPlus, chMinus, chMinus]"
         and operand = "[Number (Finite False 5), Op chPercent]"]
    by (simp only: operand sum.case prod.case)
  from u signs operand applied 1 2 show ?thesis by blast
qed




text \<open>
  C8.  A token left over when the top-level sum is complete is an error, and so is an
  opening parenthesis whose sum is not followed by a closing one.  Every input whose
  parentheses are not balanced (a closing one with none open, or one left open at the
  end) makes \<open>parseExpression\<close> throw and evaluates to \<open>undefined\<close>, as \<open>(2 + 3\<close> and
  \<open>2 + 3)\<close> do.
\<close>

theorem unbalanced_or_trailing_invalid:
  "(tokenize (trim s) = Inr tokens \<and> parseAddSub tokens = Inr (v, r) \<and> r \<noteq> [] \<longrightarrow>
      parseExpression (trim s) = Inl UnexpectedTokenAfterExpression
      \<and> evaluateMathExpressionSimple s = None)
   \<and> (parseAddSub ts = Inr (v', r') \<and> (r' = [] \<or> hd r' \<noteq> Paren RParen) \<longrightarrow>
      parsePrimary (Paren LParen # ts) = Inl MissingClosingParenthesis)
   \<and> parseExpression (js ''(2 + 3'') = Inl MissingClosingParenthesis
   \<and> evaluateMathExpressionSimple (js ''(2 + 3'') = None
   \<and> parseExpression (js ''2 + 3)'') = Inl UnexpectedTokenAfterExpression
   \<and> evaluateMathExpressionSimple (js ''2 + 3)'') = None
   \<and> (\<not> balancedParens s \<longrightarrow>
      (\<exists>e. parseExpression (trim s) = Inl e) \<and> evaluateMathExpressionSimple s = None)"
proof (intro conjI)
  show "tokenize (trim s) = Inr tokens \<and> parseAddSub tokens = Inr (v, r) \<and> r \<noteq> [] \<longrightarrow>
      parseExpression (trim s) = Inl UnexpectedTokenAfterExpression
      \<and> evaluateMathExpressionSimple s = None"
    by (simp add: evaluate_cases parseExpression_def)
  show "parseAddSub ts = Inr (v', r') \<and> (r' = [] \<or> hd r' \<noteq> Paren RParen) \<longrightarrow>
      parsePrimary (Paren LParen # ts) = Inl MissingClosingParenthesis"
    by (auto simp: parsePrimary.simps[of "Paren LParen # ts"] split: list.splits token.splits paren.splits)
  show "parseExpression (js ''(2 + 3'') = Inl MissingClosingParenthesis"
    by code_simp
  show "evaluateMathExpressionSimple (js ''(2 + 3'') = None"
    by code_simp
  show "parseExpression (js ''2 + 3)'') = Inl UnexpectedTokenAfterExpression"
    by code_simp
  show "evaluateMathExpressionSimple (js ''2 + 3)'') = None"
    by code_simp
  show "\<not> balancedParens s \<longrightarrow>
      (\<exists>e. parseExpression (trim s) = Inl e) \<and> evaluateMathExpressionSimple s = None"
  proof (intro impI)
    assume nb: "\<not> balancedParens s"
    have "\<exists>e. parseExpression (trim s) = Inl e"
    proof (cases "parseExpression (trim s)")
      case (Inl e)
      then show ?thesis by blast
    next
      case (Inr x)
      from parseExpression_balanced[OF Inr] nb show ?thesis
        by (simp add: balancedParens_def scanParenChars_trim)
    qed
    then show "(\<exists>e. parseExpression (trim s) = Inl e) \<and> evaluateMathExpressionSimple s = None"
      by (auto simp: evaluate_cases)
  qed
qed

theorem unbalanced_or_trailing_invalid_witness:
  "tokenize (trim (js '' 2 + 3) '')) =
       Inr [Number (Finite False 2), Op chPlus, Number (Finite False 3), Paren RParen]
   \<and> parseAddSub [Number (Finite False 2), Op chPlus, Number (Finite False 3), Paren RParen]
       = Inr (Finite False 5, [Paren RParen])
   \<and> parseExpression (trim (js '' 2 + 3) '')) = Inl UnexpectedTokenAfterExpression
   \<and> evaluateMathExpressionSimple (js '' 2 + 3) '') = None
   \<and> parseAddSub [Number (Finite False 2), Op chPlus, Number (Finite False 3)] = Inr (Finite False 5, [])
   \<and> parsePrimary [Paren LParen, Number (Finite False 2), Op chPlus, Number (Finite False 3)]
       = Inl MissingClosingParenthesis
   \<and> \<not> balancedParens (js ''2 * (3 + 4'')
   \<and> evaluateMathExpressionSimple (js ''2 * (3 + 4'') = None
   \<and> \<not> balancedParens (js ''(1 + 2)) * (3'')
   \<and> evaluateMathExpressionSimple (js ''(1 + 2)) * (3'') = None"
proof -
  have toks: "tokenize (trim (js '' 2 + 3) '')) =
       Inr [Number (Finite False 2), Op chPlus, Number (Finite False 3), Paren RParen]"
    by code_simp
  have sum1: "parseAddSub [Number (Finite False 2), Op chPlus, Number (Finite False 3), Paren RParen]
       = Inr (Finite False 5, [Paren RParen])"
    by code_simp
  have sum2: "parseAddSub [Number (Finite False 2), Op chPlus, Number (Finite False 3)] = Inr (Finite False 5, [])"
    by code_simp
  have open_left: "\<not> balancedParens (js ''2 * (3 + 4'')"
    by code_simp
  have closed_early: "\<not> balancedParens (js ''(1 + 2)) * (3'')"
    by code_simp
  have 1: "parseExpression (trim (js '' 2 + 3) '')) = Inl UnexpectedTokenAfterExpression
      \<and> evaluateMathExpressionSimple (js '' 2 + 3) '') = None"
    using toks sum1
      unbalanced_or_trailing_invalid [of "js '' 2 + 3) ''" _ "Finite False 5" "[Paren RParen]"]
    by simp
  have 2: "parsePrimary [Paren LParen, Number (Finite False 2), Op chPlus, Number (Finite False 3)]
       = Inl MissingClosingParenthesis"
    using sum2
      unbalanced_or_trailing_invalid [of _ _ _ _
        "[Number (Finite False 2), Op chPlus, Number (Finite False 3)]" "Finite False 5" "[]"]
    by simp
  have 3: "evaluateMathExpressionSimple (js ''2 * (3 + 4'') = None"
    using open_left unbalanced_or_trailing_invalid [of "js ''2 * (3 + 4''"] by blast
  have 4: "evaluateMathExpressionSimple (js ''(1 + 2)) * (3'') = None"
    using closed_early unbalanced_or_trailing_invalid [of "js ''(1 + 2)) * (3''"] by blast
  from toks sum1 sum2 open_left closed_early 1 2 3 4 show ?thesis by blast
qed

text \<open>
  C10.  \<open>%\<close> is never an infix operator, and one operand takes one \<open>%\<close> at most:
  \<open>parsePercentage\<close> consumes the \<open>%\<close> that follows its operand and nothing more, so
  when a number or a second \<open>%\<close> comes next at the top level, a token is left over
  after the sum; \<open>5 % 3\<close> and \<open>50%%\<close> evaluate to \<open>undefined\<close>.
\<close>

theorem percent_not_infix_nor_doubled:
  "(parseUnary ts = Inr (v, Op chPercent # r) \<longrightarrow> parsePercentage ts = Inr (js_div v (num 100), r))
   \<and> (parseUnary ts = Inr (v, r) \<and> (r = [] \<or> hd r \<noteq> Op chPercent) \<longrightarrow> parsePercentage ts = Inr (v, r))
   \<and> (tokenize (trim s) = Inr ts \<and> parseUnary ts = Inr (v, Op chPercent # Number b # rest) \<longrightarrow>
        parseExpression (trim s) = Inl UnexpectedTokenAfterExpression
        \<and> evaluateMathExpressionSimple s = None)
   \<and> (tokenize (trim s) = Inr ts \<and> parseUnary ts = Inr (v, Op chPercent # Op chPercent # rest) \<longrightarrow>
        parseExpression (trim s) = Inl UnexpectedTokenAfterExpression
        \<and> evaluateMathExpressionSimple s = None)
   \<and> evaluateMathExpressionSimple (js ''5 % 3'') = None
   \<and> evaluateMathExpressionSimple (js ''50%%'') = None"
proof (intro conjI)
  show "parseUnary ts = Inr (v, Op chPercent # r) \<longrightarrow> parsePercentage ts = Inr (js_div v (num 100), r)"
    by (simp add: parsePercentage.simps[of ts])
  show "parseUnary ts = Inr (v, r) \<and> (r = [] \<or> hd r \<noteq> Op chPercent) \<longrightarrow> parsePercentage ts = Inr (v, r)"
    by (auto simp: parsePercentage.simps[of ts] split: list.splits token.splits)
  show "tokenize (trim s) = Inr ts \<and> parseUnary ts = Inr (v, Op chPercent # Number b # rest) \<longrightarrow>
        parseExpression (trim s) = Inl UnexpectedTokenAfterExpression
        \<and> evaluateMathExpressionSimple s = None"
    by (simp add: evaluate_cases parseExpression_def percent_then_number)
  show "tokenize (trim s) = Inr ts \<and> parseUnary ts = Inr (v, Op chPercent # Op chPercent # rest) \<longrightarrow>
        parseExpression (trim s) = Inl UnexpectedTokenAfterExpression
        \<and> evaluateMathExpressionSimple s = None"
    by (simp add: evaluate_cases parseExpression_def percent_then_percent)
  show "evaluateMathExpressionSimple (js ''5 % 3'') = None"
    by code_simp
  show "evaluateMathExpressionSimple (js ''50%%'') = None"
    by code_simp
qed

theorem percent_not_infix_nor_doubled_witness:
  "parseUnary [Number (Finite False 50), Op chPercent, Op chPercent]
       = Inr (Finite False 50, [Op chPercent, Op chPercent])
   \<and> parsePercentage [Number (Finite False 50), Op chPercent, Op chPercent]
       = Inr (js_div (Finite False 50) (num 100), [Op chPercent])
   \<and> parseUnary [Number (Finite False 5)] = Inr (Finite False 5, [])
   \<and> parsePercentage [Number (Finite False 5)] = Inr (Finite False 5, [])
   \<and> tokenize (trim (js ''5 % 3'')) = Inr [Number (Finite False 5), Op chPercent, Number (Finite False 3)]
   \<and> parseUnary [Number (Finite False 5), Op chPercent, Number (Finite False 3)]
       = Inr (Finite False 5, [Op chPercent, Number (Finite False 3)])
   \<and> parseExpression (trim (js ''5 % 3'')) = Inl UnexpectedTokenAfterExpression
   \<and> tokenize (trim (js ''50%%'')) = Inr [Number (Finite False 50), Op chPercent, Op chPercent]
   \<and> parseExpression (trim (js ''50%%'')) = Inl UnexpectedTokenAfterExpression"
proof -
  have u1: "parseUnary [Number (Finite False 50), Op chPercent, Op chPercent]
       = Inr (Finite False 50, [Op chPercent, Op chPercent])"
    by (simp add: parse_simps)
  have u2: "parseUnary [Number (Finite False 5)] = Inr (Finite False 5, [])"
    by (simp add: parse_simps)
  have u3: "parseUnary [Number (Finite False 5), Op chPercent, Number (Finite False 3)]
       = Inr (Finite False 5, [Op chPercent, Number (Finite False 3)])"
    by (simp add: parse_simps)
  have t1: "tokenize (trim (js ''5 % 3'')) = Inr [Number (Finite False 5), Op chPercent, Number (Finite False 3)]"
    by code_simp
  have t2: "tokenize (trim (js ''50%%'')) = Inr [Number (Finite False 50), Op chPercent, Op chPercent]"
    by code_simp
  have 1: "parsePercentage [Number (Finite False 50), Op chPercent, Op chPercent]
       = Inr (js_div (Finite False 50) (num 100), [Op chPercent])"
    using u1 percent_not_infix_nor_doubled
      [of "[Number (Finite False 50), Op chPercent, Op chPercent]" "Finite False 50" "[Op chPercent]"]
    by simp
  have 2: "parsePercentage [Number (Finite False 5)] = Inr (Finite False 5, [])"
    using u2 percent_not_infix_nor_doubled [of "[Number (Finite False 5)]" "Finite False 5" "[]"]
    by simp
  have 3: "parseExpression (trim (js ''5 % 3'')) = Inl UnexpectedTokenAfterExpression"
    using t1 u3 percent_not_infix_nor_doubled
      [of "[Number (Finite False 5), Op chPercent, Number (Finite False 3)]" "Finite False 5" _
          "js ''5 % 3''" "Finite False 3" "[]"]
    by simp
  have 4: "parseExpression (trim (js ''50%%'')) = Inl UnexpectedTokenAfterExpression"
    using t2 u1 percent_not_infix_nor_doubled
      [of "[Number (Finite False 50), Op chPercent, Op chPercent]" "Finite False 50" _
          "js ''50%%''" _ "[]"]
    by simp
  from u1 u2 u3 t1 t2 1 2 3 4 show ?thesis by blast
qed

end
